theory Spec2Isabelle
  imports Main "HOL-Library.Sublist"
begin

section \<open>Host-language primitives used by the selector builder\<close>

text \<open>
  \<^verbatim>\<open>Array.prototype.indexOf\<close>: the position of the first occurrence, or \<open>-1\<close>
  when the element does not occur.
\<close>

primrec indexOf :: "'a list \<Rightarrow> 'a \<Rightarrow> int" where
  "indexOf [] x = - 1"
| "indexOf (y # ys) x =
     (if y = x then 0
      else (let i = indexOf ys x in if i < 0 then - 1 else i + 1))"

text \<open>
  \<^verbatim>\<open>String.prototype.includes\<close>: does the search string occur as a contiguous
  piece of the receiver? The empty search string occurs in every string.
\<close>

fun str_includes :: "string \<Rightarrow> string \<Rightarrow> bool" where
  "str_includes [] p = (p = [])"
| "str_includes (c # cs) p = (prefix p (c # cs) \<or> str_includes cs p)"

section \<open>Objects and the store\<close>

text \<open>
  The source works with one object literal, \<^verbatim>\<open>cssSelectorBuilder\<close>, and with objects
  made by \<^verbatim>\<open>Object.create(cssSelectorBuilder)\<close>, whose prototype is that literal. A
  reference is therefore either the facade or the index of a created instance. An
  instance has the own properties that were assigned to it; a property it lacks is read
  from the facade. The methods and the \<^verbatim>\<open>order\<close> array are never assigned to, so they
  are constants of the model.
\<close>

datatype ref = Facade | Inst nat

record obj =
  own_selector :: "string option"
  own_lastPart :: "string option"

record heap =
  facade_selector :: string
  facade_lastPart :: string
  insts :: "obj list"

definition init_heap :: heap where
  "init_heap = \<lparr>facade_selector = [], facade_lastPart = [], insts = []\<rparr>"

definition no_props :: obj where
  "no_props = \<lparr>own_selector = None, own_lastPart = None\<rparr>"

definition own :: "heap \<Rightarrow> nat \<Rightarrow> obj" where
  "own h i = (if i < length (insts h) then insts h ! i else no_props)"

definition valid :: "heap \<Rightarrow> ref \<Rightarrow> bool" where
  "valid h r = (case r of Facade \<Rightarrow> True | Inst i \<Rightarrow> i < length (insts h))"

definition get_selector :: "heap \<Rightarrow> ref \<Rightarrow> string" where
  "get_selector h r =
     (case r of
        Facade \<Rightarrow> facade_selector h
      | Inst i \<Rightarrow> (case own_selector (own h i) of Some v \<Rightarrow> v | None \<Rightarrow> facade_selector h))"

definition get_lastPart :: "heap \<Rightarrow> ref \<Rightarrow> string" where
  "get_lastPart h r =
     (case r of
        Facade \<Rightarrow> facade_lastPart h
      | Inst i \<Rightarrow> (case own_lastPart (own h i) of Some v \<Rightarrow> v | None \<Rightarrow> facade_lastPart h))"

definition set_selector :: "ref \<Rightarrow> string \<Rightarrow> heap \<Rightarrow> heap" where
  "set_selector r v h =
     (case r of
        Facade \<Rightarrow> h\<lparr>facade_selector := v\<rparr>
      | Inst i \<Rightarrow> h\<lparr>insts := (insts h)[i := (own h i)\<lparr>own_selector := Some v\<rparr>]\<rparr>)"

definition set_lastPart :: "ref \<Rightarrow> string \<Rightarrow> heap \<Rightarrow> heap" where
  "set_lastPart r v h =
     (case r of
        Facade \<Rightarrow> h\<lparr>facade_lastPart := v\<rparr>
      | Inst i \<Rightarrow> h\<lparr>insts := (insts h)[i := (own h i)\<lparr>own_lastPart := Some v\<rparr>]\<rparr>)"

text \<open>\<^verbatim>\<open>Object.create(cssSelectorBuilder)\<close>: a fresh object without own properties.\<close>

definition object_create :: "heap \<Rightarrow> ref \<times> heap" where
  "object_create h = (Inst (length (insts h)), h\<lparr>insts := insts h @ [no_props]\<rparr>)"

section \<open>The selector builder\<close>

text \<open>
  The two exceptions of the source are both \<^verbatim>\<open>Error\<close> objects and differ in their
  message: "Element, id and pseudo-element should not occur more then one time inside
  the selector" and "Selector parts should be arranged in the following order: ...".
\<close>

datatype error = DuplicateFragmentError | OrderError

definition order :: "string list" where
  "order = [''element'', ''id'', ''class'', ''attr'', ''pseudoClass'', ''pseudoElement'']"

definition stringify :: "heap \<Rightarrow> ref \<Rightarrow> string" where
  "stringify h this = get_selector h this"

definition create :: "string \<Rightarrow> string \<Rightarrow> heap \<Rightarrow> ref \<times> heap" where
  "create newSelector currPart h =
     (case object_create h of
        (newInstance, h1) \<Rightarrow>
          (newInstance,
           set_lastPart newInstance currPart (set_selector newInstance newSelector h1)))"

definition validate :: "string \<Rightarrow> string \<Rightarrow> error + unit" where
  "validate currentSelector newPart =
     (let isCompatible = True;
          isCompatible =
            (if str_includes currentSelector ''table'' \<and> newPart = ''div'' then False
             else isCompatible);
          isCompatible = (if str_includes currentSelector newPart then False else isCompatible)
      in if \<not> isCompatible then Inl DuplicateFragmentError else Inr ())"

definition checkOrder :: "heap \<Rightarrow> ref \<Rightarrow> string \<Rightarrow> error + unit" where
  "checkOrder h this part =
     (let lastPartInd = indexOf order (get_lastPart h this);
          partInd = indexOf order part
      in if lastPartInd > - 1 \<and> lastPartInd > partInd then Inl OrderError else Inr ())"

text \<open>
  Every method returns the thrown error or the new object, together with the store. A
  throw happens before anything is allocated, so the store is then the one received.
\<close>

definition element :: "string \<Rightarrow> ref \<Rightarrow> heap \<Rightarrow> (error + ref) \<times> heap" where
  "element val this h =
     (case checkOrder h this ''element'' of
        Inl e \<Rightarrow> (Inl e, h)
      | Inr _ \<Rightarrow>
          (case validate (get_selector h this) val of
             Inl e \<Rightarrow> (Inl e, h)
           | Inr _ \<Rightarrow>
               (case create (get_selector h this @ val) ''element'' h of
                  (r, h') \<Rightarrow> (Inr r, h'))))"

definition id_sel :: "string \<Rightarrow> ref \<Rightarrow> heap \<Rightarrow> (error + ref) \<times> heap" where
  "id_sel val this h =
     (case checkOrder h this ''id'' of
        Inl e \<Rightarrow> (Inl e, h)
      | Inr _ \<Rightarrow>
          (case validate (get_selector h this) ''#'' of
             Inl e \<Rightarrow> (Inl e, h)
           | Inr _ \<Rightarrow>
               (case create (get_selector h this @ ''#'' @ val) ''id'' h of
                  (r, h') \<Rightarrow> (Inr r, h'))))"

definition class_sel :: "string \<Rightarrow> ref \<Rightarrow> heap \<Rightarrow> (error + ref) \<times> heap" where
  "class_sel val this h =
     (case checkOrder h this ''class'' of
        Inl e \<Rightarrow> (Inl e, h)
      | Inr _ \<Rightarrow>
          (case create (get_selector h this @ ''.'' @ val) ''class'' h of
             (r, h') \<Rightarrow> (Inr r, h')))"

definition attr :: "string \<Rightarrow> ref \<Rightarrow> heap \<Rightarrow> (error + ref) \<times> heap" where
  "attr val this h =
     (case checkOrder h this ''attr'' of
        Inl e \<Rightarrow> (Inl e, h)
      | Inr _ \<Rightarrow>
          (case create (get_selector h this @ ''['' @ val @ '']'') ''attr'' h of
             (r, h') \<Rightarrow> (Inr r, h')))"

definition pseudoClass :: "string \<Rightarrow> ref \<Rightarrow> heap \<Rightarrow> (error + ref) \<times> heap" where
  "pseudoClass val this h =
     (case checkOrder h this ''pseudoClass'' of
        Inl e \<Rightarrow> (Inl e, h)
      | Inr _ \<Rightarrow>
          (case create (get_selector h this @ '':'' @ val) ''pseudoClass'' h of
             (r, h') \<Rightarrow> (Inr r, h')))"

definition pseudoElement :: "string \<Rightarrow> ref \<Rightarrow> heap \<Rightarrow> (error + ref) \<times> heap" where
  "pseudoElement val this h =
     (case checkOrder h this ''pseudoElement'' of
        Inl e \<Rightarrow> (Inl e, h)
      | Inr _ \<Rightarrow>
          (case validate (get_selector h this) ''::'' of
             Inl e \<Rightarrow> (Inl e, h)
           | Inr _ \<Rightarrow>
               (case create (get_selector h this @ ''::'' @ val) ''pseudoElement'' h of
                  (r, h') \<Rightarrow> (Inr r, h'))))"

text \<open>
  \<^verbatim>\<open>combine\<close> first evaluates \<^verbatim>\<open>Object.create(cssSelectorBuilder)\<close>, the receiver of
  \<^verbatim>\<open>create\<close>, then the template string, then calls \<^verbatim>\<open>create\<close> with one argument, so
  \<^verbatim>\<open>currPart\<close> takes its default, the empty string.
\<close>

definition combine :: "ref \<Rightarrow> string \<Rightarrow> ref \<Rightarrow> heap \<Rightarrow> ref \<times> heap" where
  "combine selector1 combinator selector2 h =
     (case object_create h of
        (receiver, h1) \<Rightarrow>
          create (stringify h1 selector1 @ '' '' @ combinator @ '' '' @ stringify h1 selector2)
            [] h1)"

section \<open>Chains of calls\<close>

datatype part =
    Element string
  | Ident string
  | Class string
  | Attr string
  | PseudoClass string
  | PseudoElement string

fun append_part :: "part \<Rightarrow> ref \<Rightarrow> heap \<Rightarrow> (error + ref) \<times> heap" where
  "append_part (Element v) this h = element v this h"
| "append_part (Ident v) this h = id_sel v this h"
| "append_part (Class v) this h = class_sel v this h"
| "append_part (Attr v) this h = attr v this h"
| "append_part (PseudoClass v) this h = pseudoClass v this h"
| "append_part (PseudoElement v) this h = pseudoElement v this h"

text \<open>\<^verbatim>\<open>this.p1(v1).p2(v2)...\<close>: each call on the result of the one before; a throw ends it.\<close>

fun chain :: "part list \<Rightarrow> ref \<Rightarrow> heap \<Rightarrow> (error + ref) \<times> heap" where
  "chain [] this h = (Inr this, h)"
| "chain (p # ps) this h =
     (case append_part p this h of
        (Inl e, h') \<Rightarrow> (Inl e, h')
      | (Inr r, h') \<Rightarrow> chain ps r h')"

text \<open>The name a method passes to \<^verbatim>\<open>checkOrder\<close> and \<^verbatim>\<open>create\<close>.\<close>

fun part_name :: "part \<Rightarrow> string" where
  "part_name (Element v) = ''element''"
| "part_name (Ident v) = ''id''"
| "part_name (Class v) = ''class''"
| "part_name (Attr v) = ''attr''"
| "part_name (PseudoClass v) = ''pseudoClass''"
| "part_name (PseudoElement v) = ''pseudoElement''"

text \<open>
  Any call of the public surface, on any receiver and operands; a program is a list of
  calls, and only the store it leaves matters here.
\<close>

datatype call =
    Append part ref
  | Combine ref string ref
  | Stringify ref

fun exec :: "call \<Rightarrow> heap \<Rightarrow> heap" where
  "exec (Append p this) h = snd (append_part p this h)"
| "exec (Combine a c b) h = snd (combine a c b h)"
| "exec (Stringify this) h = h"

fun execs :: "call list \<Rightarrow> heap \<Rightarrow> heap" where
  "execs [] h = h"
| "execs (c # cs) h = execs cs (exec c h)"

section \<open>The specification's vocabulary\<close>

text \<open>
  The rank of a category in the fixed order Element, Id, Class, Attribute, PseudoClass,
  PseudoElement, and the text of a fragment with its punctuation.
\<close>

fun category_rank :: "part \<Rightarrow> nat" where
  "category_rank (Element v) = 0"
| "category_rank (Ident v) = 1"
| "category_rank (Class v) = 2"
| "category_rank (Attr v) = 3"
| "category_rank (PseudoClass v) = 4"
| "category_rank (PseudoElement v) = 5"

fun render :: "part \<Rightarrow> string" where
  "render (Element v) = v"
| "render (Ident v) = ''#'' @ v"
| "render (Class v) = ''.'' @ v"
| "render (Attr v) = ''['' @ v @ '']''"
| "render (PseudoClass v) = '':'' @ v"
| "render (PseudoElement v) = ''::'' @ v"

text \<open>
  A sequence of parts respects the fixed order when the ranks never decrease and Element,
  Id and PseudoElement (ranks 0, 1 and 5) occur at most once each. \<open>text_before k ps\<close> is
  the text of the fragments of \<open>ps\<close> that come before its first part of rank \<open>k\<close>.
\<close>

definition proper_sequence :: "part list \<Rightarrow> bool" where
  "proper_sequence ps \<longleftrightarrow>
     sorted (map category_rank ps) \<and>
     (\<forall>k \<in> {0, 1, 5}. length (filter (\<lambda>p. category_rank p = k) ps) \<le> 1)"

definition text_before :: "nat \<Rightarrow> part list \<Rightarrow> string" where
  "text_before k ps = concat (map render (takeWhile (\<lambda>p. category_rank p \<noteq> k) ps))"

section \<open>Auxiliary notions for the proofs\<close>

text \<open>The store after an object with both own properties has been added.\<close>

definition alloc :: "string \<Rightarrow> string \<Rightarrow> heap \<Rightarrow> heap" where
  "alloc s p h = h\<lparr>insts := insts h @ [\<lparr>own_selector = Some s, own_lastPart = Some p\<rparr>]\<rparr>"

text \<open>The call of \<^verbatim>\<open>validate\<close> that each method makes, if any.\<close>

fun part_check :: "part \<Rightarrow> string \<Rightarrow> error + unit" where
  "part_check (Element v) s = validate s v"
| "part_check (Ident v) s = validate s ''#''"
| "part_check (PseudoElement v) s = validate s ''::''"
| "part_check _ s = Inr ()"

section \<open>Basic facts\<close>

lemma str_includes_sublist: "str_includes s p = sublist p s"
  by (induction s) (simp_all add: sublist_Cons_right)

lemma str_includes_iff: "str_includes s p \<longleftrightarrow> (\<exists>a b. s = a @ p @ b)"
  by (simp add: str_includes_sublist sublist_def)


subsection \<open>Arrays and strings\<close>

lemma indexOf_ge: "- 1 \<le> indexOf xs x"
  by (induction xs) (simp_all add: Let_def)

lemma indexOf_absent: "x \<notin> set xs \<Longrightarrow> indexOf xs x = - 1"
  by (induction xs) (auto simp: Let_def)

lemma indexOf_order_part: "indexOf order (part_name p) = int (category_rank p)"
  by (cases p) (simp_all add: order_def)

lemma indexOf_order_empty: "indexOf order [] = - 1"
  by (simp add: order_def)

subsection \<open>Reading and allocating\<close>

lemma create_eq: "create s p h = (Inst (length (insts h)), alloc s p h)"
  by (simp add: create_def object_create_def set_selector_def set_lastPart_def own_def
      no_props_def alloc_def)

lemma get_selector_grow:
  "valid h r \<Longrightarrow> get_selector (h\<lparr>insts := insts h @ xs\<rparr>) r = get_selector h r"
  by (cases r)
     (simp_all add: get_selector_def own_def valid_def nth_append split: option.splits)

lemma get_lastPart_grow:
  "valid h r \<Longrightarrow> get_lastPart (h\<lparr>insts := insts h @ xs\<rparr>) r = get_lastPart h r"
  by (cases r)
     (simp_all add: get_lastPart_def own_def valid_def nth_append split: option.splits)

lemma get_selector_no_props:
  "get_selector (h\<lparr>insts := insts h @ [no_props]\<rparr>) r = get_selector h r"
  by (cases r)
     (auto simp: get_selector_def own_def valid_def nth_append no_props_def
        split: option.splits)

lemma get_selector_alloc_new: "get_selector (alloc s p h) (Inst (length (insts h))) = s"
  by (simp add: get_selector_def alloc_def own_def)

lemma get_lastPart_alloc_new: "get_lastPart (alloc s p h) (Inst (length (insts h))) = p"
  by (simp add: get_lastPart_def alloc_def own_def)

lemma get_selector_alloc_old:
  "valid h r \<Longrightarrow> get_selector (alloc s p h) r = get_selector h r"
  by (simp add: alloc_def get_selector_grow)

lemma get_lastPart_alloc_old:
  "valid h r \<Longrightarrow> get_lastPart (alloc s p h) r = get_lastPart h r"
  by (simp add: alloc_def get_lastPart_grow)

lemma alloc_simps:
  "facade_selector (alloc s p h) = facade_selector h"
  "facade_lastPart (alloc s p h) = facade_lastPart h"
  "insts (alloc s p h) = insts h @ [\<lparr>own_selector = Some s, own_lastPart = Some p\<rparr>]"
  by (simp_all add: alloc_def)

lemma valid_alloc: "valid (alloc s p h) r \<longleftrightarrow> valid h r \<or> r = Inst (length (insts h))"
  by (cases r) (auto simp: valid_def alloc_def)

subsection \<open>The methods in closed form\<close>

lemma validate_eq:
  "validate s p =
     (if (str_includes s ''table'' \<and> p = ''div'') \<or> str_includes s p
      then Inl DuplicateFragmentError else Inr ())"
  by (simp add: validate_def Let_def)

lemma checkOrder_set:
  "get_lastPart h this = part_name q \<Longrightarrow>
   checkOrder h this (part_name p) =
     (if category_rank p < category_rank q then Inl OrderError else Inr ())"
  by (simp add: checkOrder_def indexOf_order_part Let_def)

lemma checkOrder_unset:
  "get_lastPart h this \<notin> set order \<Longrightarrow> checkOrder h this part = Inr ()"
  by (simp add: checkOrder_def indexOf_absent Let_def)

lemma append_part_eq:
  "append_part p this h =
     (case checkOrder h this (part_name p) of
        Inl e \<Rightarrow> (Inl e, h)
      | Inr _ \<Rightarrow>
          (case part_check p (get_selector h this) of
             Inl e \<Rightarrow> (Inl e, h)
           | Inr _ \<Rightarrow>
               (Inr (Inst (length (insts h))),
                alloc (get_selector h this @ render p) (part_name p) h)))"
  by (cases p)
     (simp_all add: element_def id_sel_def class_sel_def attr_def pseudoClass_def
        pseudoElement_def create_eq split: sum.splits)

lemma combine_eq:
  "combine a c b h =
     (Inst (Suc (length (insts h))),
      alloc (get_selector h a @ '' '' @ c @ '' '' @ get_selector h b) []
        (h\<lparr>insts := insts h @ [no_props]\<rparr>))"
  by (simp add: combine_def object_create_def create_eq stringify_def get_selector_no_props)

lemma append_part_not_order:
  "checkOrder h this (part_name p) = Inr () \<Longrightarrow> fst (append_part p this h) \<noteq> Inl OrderError"
  by (cases p) (simp_all add: append_part_eq validate_eq split: sum.splits)

lemma includes_char: "str_includes s [c] \<longleftrightarrow> c \<in> set s"
  by (induction s) auto

subsection \<open>Frame properties of single calls\<close>

lemma exec_facade:
  "facade_selector (exec c h) = facade_selector h \<and>
   facade_lastPart (exec c h) = facade_lastPart h"
proof (cases c)
  case (Append p this)
  then show ?thesis by (simp add: append_part_eq alloc_simps split: sum.splits)
next
  case (Combine a s b)
  then show ?thesis by (simp add: combine_eq alloc_simps)
next
  case (Stringify r)
  then show ?thesis by simp
qed

lemma execs_facade:
  "facade_selector (execs cs h) = facade_selector h \<and>
   facade_lastPart (execs cs h) = facade_lastPart h"
  by (induction cs arbitrary: h) (simp_all add: exec_facade)

lemma exec_frame:
  assumes "valid h s"
  shows "get_selector (exec c h) s = get_selector h s \<and>
         get_lastPart (exec c h) s = get_lastPart h s \<and> valid (exec c h) s"
proof (cases c)
  case (Append p this)
  with assms show ?thesis
    by (simp add: append_part_eq get_selector_alloc_old get_lastPart_alloc_old valid_alloc
        split: sum.splits)
next
  case (Combine a x b)
  let ?h1 = "h\<lparr>insts := insts h @ [no_props]\<rparr>"
  from assms have v1: "valid ?h1 s" by (cases s) (simp_all add: valid_def)
  from assms have "get_selector ?h1 s = get_selector h s" "get_lastPart ?h1 s = get_lastPart h s"
    by (simp_all add: get_selector_grow get_lastPart_grow)
  with Combine v1 show ?thesis
    by (simp add: combine_eq get_selector_alloc_old get_lastPart_alloc_old valid_alloc)
next
  case (Stringify r)
  with assms show ?thesis by simp
qed

lemma execs_frame:
  "valid h s \<Longrightarrow>
   get_selector (execs cs h) s = get_selector h s \<and>
   get_lastPart (execs cs h) s = get_lastPart h s"
  by (induction cs arbitrary: h) (simp_all add: exec_frame)

lemma append_part_fresh:
  "fst (append_part p this h) = Inr r \<Longrightarrow>
   \<not> valid h r \<and> valid (snd (append_part p this h)) r"
  by (auto simp: append_part_eq valid_alloc valid_def alloc_simps split: sum.splits)

lemma combine_fresh:
  "\<not> valid h (fst (combine a c b h)) \<and> valid (snd (combine a c b h)) (fst (combine a c b h))"
  by (simp add: combine_eq valid_def alloc_simps)

subsection \<open>Chains\<close>

lemma append_part_ok:
  assumes "checkOrder h this (part_name p) = Inr ()"
      and "part_check p (get_selector h this) = Inr ()"
  shows "\<exists>r h'. append_part p this h = (Inr r, h') \<and>
           get_selector h' r = get_selector h this @ render p \<and>
           get_lastPart h' r = part_name p"
  using assms by (simp add: append_part_eq get_selector_alloc_new get_lastPart_alloc_new)

lemma append_part_Inr:
  assumes "append_part p this h = (Inr r, h')"
  shows "get_selector h' r = get_selector h this @ render p \<and> get_lastPart h' r = part_name p"
  using assms
  by (auto simp: append_part_eq get_selector_alloc_new get_lastPart_alloc_new split: sum.splits)

lemma chain_text:
  "chain ps this h = (Inr r, h') \<Longrightarrow>
   get_selector h' r = get_selector h this @ concat (map render ps) \<and>
   (ps \<noteq> [] \<longrightarrow> get_lastPart h' r = part_name (last ps))"
proof (induction ps arbitrary: this h)
  case Nil
  then show ?case by simp
next
  case (Cons p ps)
  from Cons.prems obtain r1 h1 where
    step: "append_part p this h = (Inr r1, h1)" and rest: "chain ps r1 h1 = (Inr r, h')"
    by (auto split: prod.splits sum.splits)
  from append_part_Inr [OF step] Cons.IH [OF rest] rest show ?case
    by (cases ps) auto
qed

lemma chain_succeeds:
  assumes "sorted (map category_rank ps)"
      and "\<forall>p \<in> set ps. indexOf order (get_lastPart h this) \<le> int (category_rank p)"
      and "\<forall>k \<in> {0, 1, 5}. length (filter (\<lambda>p. category_rank p = k) ps) \<le> 1"
      and "\<forall>v. Element v \<in> set ps \<longrightarrow> get_selector h this = [] \<and> v \<noteq> []"
      and "(\<exists>v. Ident v \<in> set ps) \<longrightarrow> CHR ''#'' \<notin> set (get_selector h this @ text_before 1 ps)"
      and "(\<exists>v. PseudoElement v \<in> set ps) \<longrightarrow>
             \<not> str_includes (get_selector h this @ text_before 5 ps) ''::''"
  shows "\<exists>r h'. chain ps this h = (Inr r, h')"
  using assms
proof (induction ps arbitrary: this h)
  case Nil
  then show ?case by simp
next
  case (Cons p ps)
  have ord: "checkOrder h this (part_name p) = Inr ()"
    using Cons.prems(2) by (simp add: checkOrder_def indexOf_order_part Let_def)
  have chk: "part_check p (get_selector h this) = Inr ()"
  proof (cases p)
    case (Element v)
    with Cons.prems(4) show ?thesis by (simp add: validate_eq)
  next
    case (Ident v)
    with Cons.prems(5) show ?thesis
      by (auto simp: validate_eq text_before_def includes_char)
  next
    case (PseudoElement v)
    with Cons.prems(6) show ?thesis
      by (auto simp: validate_eq text_before_def)
  qed simp_all
  from append_part_ok [OF ord chk] obtain r1 h1 where
    step: "append_part p this h = (Inr r1, h1)" and
    sel: "get_selector h1 r1 = get_selector h this @ render p" and
    lp: "get_lastPart h1 r1 = part_name p"
    by blast
  have srt: "sorted (map category_rank ps)" and
    le: "\<forall>q \<in> set ps. category_rank p \<le> category_rank q"
    using Cons.prems(1) by simp_all
  have cnt: "\<forall>k \<in> {0, 1, 5}. length (filter (\<lambda>p. category_rank p = k) ps) \<le> 1"
    using Cons.prems(3) by (auto split: if_splits)
  have once: "category_rank p = k \<Longrightarrow> k \<in> {0, 1, 5} \<Longrightarrow> q \<in> set ps \<Longrightarrow> category_rank q \<noteq> k"
    for k q
  proof
    assume k: "category_rank p = k" "k \<in> {0, 1, 5}" "q \<in> set ps" "category_rank q = k"
    then have "filter (\<lambda>p. category_rank p = k) ps \<noteq> []"
      by (auto simp: filter_empty_conv)
    then have "1 \<le> length (filter (\<lambda>p. category_rank p = k) ps)"
      by (cases "filter (\<lambda>p. category_rank p = k) ps") simp_all
    with k Cons.prems(3) show False by auto
  qed
  have noel: "Element v \<notin> set ps" for v
  proof
    assume a: "Element v \<in> set ps"
    with le have "category_rank p = 0" by fastforce
    from once [OF this _ a] show False by simp
  qed
  have p_id: "\<And>w. Ident w \<in> set ps \<Longrightarrow> category_rank p \<noteq> 1"
    using once [of 1] by fastforce
  have p_pe: "\<And>w. PseudoElement w \<in> set ps \<Longrightarrow> category_rank p \<noteq> 5"
    using once [of 5] by fastforce
  have "\<exists>r h'. chain ps r1 h1 = (Inr r, h')"
  proof (rule Cons.IH)
    show "sorted (map category_rank ps)" by (rule srt)
    show "\<forall>q \<in> set ps. indexOf order (get_lastPart h1 r1) \<le> int (category_rank q)"
      using le by (simp add: lp indexOf_order_part)
    show "\<forall>k \<in> {0, 1, 5}. length (filter (\<lambda>p. category_rank p = k) ps) \<le> 1" by (rule cnt)
    show "\<forall>v. Element v \<in> set ps \<longrightarrow> get_selector h1 r1 = [] \<and> v \<noteq> []"
      using noel by simp
    show "(\<exists>v. Ident v \<in> set ps) \<longrightarrow> CHR ''#'' \<notin> set (get_selector h1 r1 @ text_before 1 ps)"
      using Cons.prems(5) p_id by (auto simp: sel text_before_def)
    show "(\<exists>v. PseudoElement v \<in> set ps) \<longrightarrow>
             \<not> str_includes (get_selector h1 r1 @ text_before 5 ps) ''::''"
      using Cons.prems(6) p_pe by (auto simp: sel text_before_def)
  qed
  with step show ?case by simp
qed


lemma render_in_text:
  "p \<in> set ps \<Longrightarrow> \<exists>a b. t @ concat (map render ps) = a @ render p @ b"
proof -
  assume "p \<in> set ps"
  then obtain xs ys where "ps = xs @ p # ys" by (auto dest: split_list)
  then have "t @ concat (map render ps) =
      (t @ concat (map render xs)) @ render p @ concat (map render ys)"
    by simp
  then show ?thesis by blast
qed

lemma str_includes_Nil: "str_includes s []"
  by (cases s) simp_all

lemma chain_checks:
  "chain (pre @ p # post) this h = (Inr r, h') \<Longrightarrow>
   part_check p (get_selector h this @ concat (map render pre)) = Inr ()"
proof (induction pre arbitrary: this h)
  case Nil
  then show ?case
    by (auto simp: append_part_eq split: sum.splits prod.splits)
next
  case (Cons q pre)
  from Cons.prems obtain r1 h1 where
    step: "append_part q this h = (Inr r1, h1)" and
    rest: "chain (pre @ p # post) r1 h1 = (Inr r, h')"
    by (auto split: prod.splits sum.splits)
  from Cons.IH [OF rest] append_part_Inr [OF step] show ?case by simp
qed

lemma first_of_rank:
  assumes "q \<in> set ps" and "category_rank q = k"
  shows "\<exists>p post. ps = takeWhile (\<lambda>p. category_rank p \<noteq> k) ps @ p # post \<and> category_rank p = k"
proof -
  let ?P = "\<lambda>p. category_rank p \<noteq> k"
  from assms have "dropWhile ?P ps \<noteq> []" by auto
  then obtain p post where d: "dropWhile ?P ps = p # post" by (cases "dropWhile ?P ps") auto
  then have "\<not> ?P p" using hd_dropWhile [of ?P ps] by auto
  moreover have "ps = takeWhile ?P ps @ p # post" using d takeWhile_dropWhile_id [of ?P ps] by simp
  ultimately show ?thesis by blast
qed

text \<open>
  Conversely, a chain started on an empty text that returns an object had a non-empty
  element name, no \<open>#\<close> in the text before its first \<^verbatim>\<open>id\<close> call and no \<open>::\<close> in the
  text before its first \<^verbatim>\<open>pseudoElement\<close> call: these three conditions are what
  \<^verbatim>\<open>validate\<close> asks of an ordered chain.
\<close>

lemma chain_success_conditions:
  assumes "get_selector h this = []" and "chain ps this h = (Inr r, h')"
  shows "Element [] \<notin> set ps \<and>
         ((\<exists>v. Ident v \<in> set ps) \<longrightarrow> CHR ''#'' \<notin> set (text_before 1 ps)) \<and>
         ((\<exists>v. PseudoElement v \<in> set ps) \<longrightarrow> (\<nexists>a b. text_before 5 ps = a @ ''::'' @ b))"
proof -
  have a: "Element [] \<notin> set ps"
  proof
    assume "Element [] \<in> set ps"
    then obtain pre post where "ps = pre @ Element [] # post" by (auto dest: split_list)
    with chain_checks [of pre "Element []" post this h r h'] assms(2)
    show False by (simp add: validate_eq str_includes_Nil)
  qed
  have b: "CHR ''#'' \<notin> set (text_before 1 ps)" if "Ident v \<in> set ps" for v
  proof -
    from first_of_rank [OF that, of 1] obtain p post where
      sp: "ps = takeWhile (\<lambda>p. category_rank p \<noteq> 1) ps @ p # post" and rk: "category_rank p = 1"
      by auto
    from rk obtain w where p: "p = Ident w" by (cases p) simp_all
    from assms(2) sp have "chain (takeWhile (\<lambda>p. category_rank p \<noteq> 1) ps @ p # post) this h = (Inr r, h')"
      by simp
    from chain_checks [OF this] show ?thesis
      by (simp add: p assms(1) text_before_def validate_eq includes_char split: if_splits)
  qed
  have c: "\<nexists>a b. text_before 5 ps = a @ ''::'' @ b" if "PseudoElement v \<in> set ps" for v
  proof -
    from first_of_rank [OF that, of 5] obtain p post where
      sp: "ps = takeWhile (\<lambda>p. category_rank p \<noteq> 5) ps @ p # post" and rk: "category_rank p = 5"
      by auto
    from rk obtain w where p: "p = PseudoElement w" by (cases p) simp_all
    from assms(2) sp have "chain (takeWhile (\<lambda>p. category_rank p \<noteq> 5) ps @ p # post) this h = (Inr r, h')"
      by simp
    from chain_checks [OF this] have "\<not> str_includes (text_before 5 ps) ''::''"
      by (simp add: p assms(1) text_before_def validate_eq split: if_splits)
    then show ?thesis by (simp only: str_includes_iff) simp
  qed
  from a b c show ?thesis by blast
qed

subsection \<open>Evaluating closed examples\<close>

lemmas eval_simps =
  append_part_eq combine_eq checkOrder_def order_def validate_eq get_selector_def
  get_lastPart_def stringify_def own_def alloc_def init_heap_def valid_def no_props_def

section \<open>What the substring search does on chains\<close>

text \<open>
  \<^verbatim>\<open>validate\<close> has no record of the parts appended; it searches the accumulated text.
  On an ordered chain it finds nothing when the element name is not empty, the text before
  the \<^verbatim>\<open>id\<close> call has no \<open>#\<close> and the text before the \<^verbatim>\<open>pseudoElement\<close> call has no
  \<open>::\<close>. Such a chain returns, and its text is the concatenation of the fragments in call
  order, each with its punctuation. By \<open>chain_success_conditions\<close> these are the only
  ordered chains that return.
\<close>

lemma clear_chain_stringify:
  assumes "get_selector h this = []" and "get_lastPart h this = []"
      and "proper_sequence ps"
      and "Element [] \<notin> set ps"
      and "(\<exists>v. Ident v \<in> set ps) \<longrightarrow> CHR ''#'' \<notin> set (text_before 1 ps)"
      and "(\<exists>v. PseudoElement v \<in> set ps) \<longrightarrow> (\<nexists>a b. text_before 5 ps = a @ ''::'' @ b)"
  shows "\<exists>r h'. chain ps this h = (Inr r, h') \<and> stringify h' r = concat (map render ps)"
proof -
  have "\<exists>r h'. chain ps this h = (Inr r, h')"
  proof (rule chain_succeeds)
    show "sorted (map category_rank ps)"
      using assms(3) by (simp add: proper_sequence_def)
    show "\<forall>p \<in> set ps. indexOf order (get_lastPart h this) \<le> int (category_rank p)"
      by (simp add: assms(2) indexOf_order_empty)
    show "\<forall>k \<in> {0, 1, 5}. length (filter (\<lambda>p. category_rank p = k) ps) \<le> 1"
      using assms(3) by (simp add: proper_sequence_def)
    show "\<forall>v. Element v \<in> set ps \<longrightarrow> get_selector h this = [] \<and> v \<noteq> []"
      using assms(1,4) by auto
    show "(\<exists>v. Ident v \<in> set ps) \<longrightarrow> CHR ''#'' \<notin> set (get_selector h this @ text_before 1 ps)"
      using assms(1,5) by simp
    show "(\<exists>v. PseudoElement v \<in> set ps) \<longrightarrow>
             \<not> str_includes (get_selector h this @ text_before 5 ps) ''::''"
      using assms(1,6) by (simp add: str_includes_iff)
  qed
  then obtain r h' where run: "chain ps this h = (Inr r, h')" by blast
  from chain_text [OF run] assms(1) have "stringify h' r = concat (map render ps)"
    by (simp add: stringify_def)
  with run show ?thesis by blast
qed

text \<open>
  Two instances: the chain \<^verbatim>\<open>id('main').class('container').class('editable')\<close> of the
  documentation, and a chain with one part of every category.
\<close>

lemma clear_chain_examples:
  "get_selector init_heap Facade = [] \<and> get_lastPart init_heap Facade = [] \<and>
   proper_sequence [Ident ''main'', Class ''container'', Class ''editable''] \<and>
   (\<exists>r h'. chain [Ident ''main'', Class ''container'', Class ''editable''] Facade init_heap =
        (Inr r, h') \<and> stringify h' r = ''#main.container.editable'') \<and>
   proper_sequence [Element ''a'', Ident ''main'', Class ''container'', Attr ''href'',
      PseudoClass ''focus'', PseudoElement ''before''] \<and>
   CHR ''#'' \<notin> set (text_before 1 [Element ''a'', Ident ''main'', Class ''container'',
      Attr ''href'', PseudoClass ''focus'', PseudoElement ''before'']) \<and>
   \<not> str_includes (text_before 5 [Element ''a'', Ident ''main'', Class ''container'',
      Attr ''href'', PseudoClass ''focus'', PseudoElement ''before'']) ''::'' \<and>
   (\<exists>r h'. chain [Element ''a'', Ident ''main'', Class ''container'', Attr ''href'',
      PseudoClass ''focus'', PseudoElement ''before''] Facade init_heap = (Inr r, h') \<and>
      stringify h' r = ''a#main.container[href]:focus::before'')"
proof -
  let ?ps = "[Ident ''main'', Class ''container'', Class ''editable'']"
  let ?qs = "[Element ''a'', Ident ''main'', Class ''container'', Attr ''href'',
      PseudoClass ''focus'', PseudoElement ''before'']"
  have e1: "get_selector init_heap Facade = []" and e2: "get_lastPart init_heap Facade = []"
    by (simp_all add: get_selector_def get_lastPart_def init_heap_def)
  have p1: "proper_sequence ?ps" and p2: "proper_sequence ?qs"
    by (simp_all add: proper_sequence_def)
  have n1: "Element [] \<notin> set ?ps" and n2: "Element [] \<notin> set ?qs"
    by simp_all
  have h1: "(\<exists>v. Ident v \<in> set ?ps) \<longrightarrow> CHR ''#'' \<notin> set (text_before 1 ?ps)"
    and h2: "CHR ''#'' \<notin> set (text_before 1 ?qs)"
    by (simp_all add: text_before_def)
  have c1: "(\<exists>v. PseudoElement v \<in> set ?ps) \<longrightarrow> (\<nexists>a b. text_before 5 ?ps = a @ ''::'' @ b)"
    by simp
  have c2: "\<not> str_includes (text_before 5 ?qs) ''::''"
    by (simp add: text_before_def)
  then have c2': "(\<exists>v. PseudoElement v \<in> set ?qs) \<longrightarrow> (\<nexists>a b. text_before 5 ?qs = a @ ''::'' @ b)"
    by (simp only: str_includes_iff) simp
  from h2 have h2': "(\<exists>v. Ident v \<in> set ?qs) \<longrightarrow> CHR ''#'' \<notin> set (text_before 1 ?qs)"
    by simp
  from clear_chain_stringify [OF e1 e2 p1 n1 h1 c1]
  have r1: "\<exists>r h'. chain ?ps Facade init_heap = (Inr r, h') \<and>
      stringify h' r = ''#main.container.editable''"
    by simp
  from clear_chain_stringify [OF e1 e2 p2 n2 h2' c2']
  have r2: "\<exists>r h'. chain ?qs Facade init_heap = (Inr r, h') \<and>
      stringify h' r = ''a#main.container[href]:focus::before''"
    by simp
  from e1 e2 p1 p2 h2 c2 r1 r2 show ?thesis by blast
qed

text \<open>
  On the result of a chain, the search finds the \<open>#\<close> of an id and the \<open>::\<close> of a
  pseudo-element appended before, whatever the new argument is, and it finds an element
  name only when the new name is that name again. \<^verbatim>\<open>checkOrder\<close> runs first, so a
  repeated \<^verbatim>\<open>id\<close> or \<^verbatim>\<open>element\<close> after a part of higher rank throws the order error.
\<close>

lemma repeated_part_throws:
  assumes "chain ps this h = (Inr r, h')"
  shows "(Ident v \<in> set ps \<longrightarrow>
            fst (id_sel w r h') =
              (if category_rank (last ps) \<le> 1 then Inl DuplicateFragmentError
               else Inl OrderError)) \<and>
         (PseudoElement v \<in> set ps \<longrightarrow>
            fst (pseudoElement w r h') = Inl DuplicateFragmentError) \<and>
         (Element v \<in> set ps \<longrightarrow>
            fst (element v r h') =
              (if category_rank (last ps) = 0 then Inl DuplicateFragmentError
               else Inl OrderError))"
proof -
  from chain_text [OF assms] have
    sel: "get_selector h' r = get_selector h this @ concat (map render ps)" and
    lp: "ps \<noteq> [] \<Longrightarrow> get_lastPart h' r = part_name (last ps)"
    by simp_all
  have inc: "str_includes (get_selector h' r) (render p)" if "p \<in> set ps" for p
    using render_in_text [OF that, of "get_selector h this"] by (simp add: sel str_includes_iff)
  have ord: "checkOrder h' r (part_name p) =
      (if category_rank p < category_rank (last ps) then Inl OrderError else Inr ())"
    if "ps \<noteq> []" for p
    using lp [OF that] by (rule checkOrder_set)
  have a: "fst (id_sel w r h') =
      (if category_rank (last ps) \<le> 1 then Inl DuplicateFragmentError else Inl OrderError)"
    if "Ident v \<in> set ps"
  proof -
    from that have ne: "ps \<noteq> []" by auto
    from inc [OF that] have "CHR ''#'' \<in> set (get_selector h' r)"
      by (auto simp: str_includes_iff)
    with ord [OF ne, of "Ident w"] show ?thesis
      by (simp add: id_sel_def validate_eq includes_char)
  qed
  have b: "fst (pseudoElement w r h') = Inl DuplicateFragmentError"
    if "PseudoElement v \<in> set ps"
  proof -
    from that have ne: "ps \<noteq> []" by auto
    have "category_rank (last ps) \<le> 5" by (cases "last ps") simp_all
    moreover from inc [OF that] have "str_includes (get_selector h' r) ''::''"
      by (auto simp: str_includes_iff)
    ultimately show ?thesis
      using ord [OF ne, of "PseudoElement w"]
      by (simp add: pseudoElement_def validate_eq)
  qed
  have c: "fst (element v r h') =
      (if category_rank (last ps) = 0 then Inl DuplicateFragmentError else Inl OrderError)"
    if "Element v \<in> set ps"
  proof -
    from that have ne: "ps \<noteq> []" by auto
    from inc [OF that] ord [OF ne, of "Element v"] show ?thesis
      by (simp add: element_def validate_eq)
  qed
  from a b c show ?thesis by blast
qed

lemma repeated_part_examples:
  "chain [Ident ''a'', Class ''b''] Facade init_heap =
     (Inr (Inst 1), snd (chain [Ident ''a'', Class ''b''] Facade init_heap)) \<and>
   Ident ''a'' \<in> set [Ident ''a'', Class ''b''] \<and>
   fst (id_sel ''c'' (Inst 1) (snd (chain [Ident ''a'', Class ''b''] Facade init_heap))) =
     Inl OrderError \<and>
   chain [Element ''div'', Ident ''a''] Facade init_heap =
     (Inr (Inst 1), snd (chain [Element ''div'', Ident ''a''] Facade init_heap)) \<and>
   fst (id_sel ''c'' (Inst 1) (snd (chain [Element ''div'', Ident ''a''] Facade init_heap))) =
     Inl DuplicateFragmentError \<and>
   fst (element ''div'' (Inst 1) (snd (chain [Element ''div'', Ident ''a''] Facade init_heap))) =
     Inl OrderError \<and>
   chain [Element ''div'', PseudoElement ''after''] Facade init_heap =
     (Inr (Inst 1), snd (chain [Element ''div'', PseudoElement ''after''] Facade init_heap)) \<and>
   fst (pseudoElement ''before'' (Inst 1)
     (snd (chain [Element ''div'', PseudoElement ''after''] Facade init_heap))) =
     Inl DuplicateFragmentError \<and>
   chain [Element ''div''] Facade init_heap =
     (Inr (Inst 0), snd (chain [Element ''div''] Facade init_heap)) \<and>
   fst (element ''div'' (Inst 0) (snd (chain [Element ''div''] Facade init_heap))) =
     Inl DuplicateFragmentError"
proof -
  have r1: "chain [Ident ''a'', Class ''b''] Facade init_heap =
     (Inr (Inst 1), snd (chain [Ident ''a'', Class ''b''] Facade init_heap))"
    and r2: "chain [Element ''div'', Ident ''a''] Facade init_heap =
     (Inr (Inst 1), snd (chain [Element ''div'', Ident ''a''] Facade init_heap))"
    and r3: "chain [Element ''div'', PseudoElement ''after''] Facade init_heap =
     (Inr (Inst 1), snd (chain [Element ''div'', PseudoElement ''after''] Facade init_heap))"
    and r4: "chain [Element ''div''] Facade init_heap =
     (Inr (Inst 0), snd (chain [Element ''div''] Facade init_heap))"
    by (simp_all add: eval_simps)
  from repeated_part_throws [OF r1, of "''a''" "''c''"]
    repeated_part_throws [OF r2, of "''a''" "''c''"]
    repeated_part_throws [OF r2, of "''div''" "''c''"]
    repeated_part_throws [OF r3, of "''after''" "''before''"]
    repeated_part_throws [OF r4, of "''div''" "''c''"]
    r1 r2 r3 r4
  show ?thesis by simp
qed

section \<open>The claims\<close>

text \<open>
  C1. Every chain of appends whose categories respect the fixed order, with Element, Id
  and PseudoElement at most once, should stringify to the concatenation of its fragments.
  The code does not do so on \<^verbatim>\<open>attr('title=a::b').pseudoElement('before')\<close>: the ranks are
  3 then 5, the text after the first call is \<open>[title=a::b]\<close>, and the second call throws
  the duplicate error although no pseudo-element was appended, because \<^verbatim>\<open>validate\<close>
  finds \<open>::\<close> inside the attribute. The text the chain should have built is
  \<open>[title=a::b]::before\<close>.
\<close>

theorem ordered_chain_spurious_duplicate:
  "map category_rank [Attr ''title=a::b'', PseudoElement ''before''] = [3, 5] \<and>
   fst (chain [Attr ''title=a::b''] Facade init_heap) = Inr (Inst 0) \<and>
   stringify (snd (chain [Attr ''title=a::b''] Facade init_heap)) (Inst 0) = ''[title=a::b]'' \<and>
   chain [Attr ''title=a::b'', PseudoElement ''before''] Facade init_heap =
     (Inl DuplicateFragmentError, snd (chain [Attr ''title=a::b''] Facade init_heap)) \<and>
   concat (map render [Attr ''title=a::b'', PseudoElement ''before'']) = ''[title=a::b]::before''"
  by (simp add: eval_simps)

text \<open>
  C2. A second \<^verbatim>\<open>element\<close>, \<^verbatim>\<open>id\<close> or \<^verbatim>\<open>pseudoElement\<close> call on a chain should throw
  the duplicate error, whatever its argument. The code does not do so on
  \<^verbatim>\<open>element('a').element('b')\<close>: \<^verbatim>\<open>checkOrder\<close> passes, \<^verbatim>\<open>validate\<close> looks for \<open>b\<close> in
  the text \<open>a\<close> and finds nothing, and the call returns a new object with the text \<open>ab\<close>.
  The sibling calls \<^verbatim>\<open>id('a').id('b')\<close> and
  \<^verbatim>\<open>pseudoElement('a').pseudoElement('b')\<close> throw the duplicate error.
\<close>

theorem second_element_not_rejected:
  "fst (chain [Element ''a''] Facade init_heap) = Inr (Inst 0) \<and>
   checkOrder (snd (chain [Element ''a''] Facade init_heap)) (Inst 0) ''element'' = Inr () \<and>
   validate (stringify (snd (chain [Element ''a''] Facade init_heap)) (Inst 0)) ''b'' = Inr () \<and>
   fst (chain [Element ''a'', Element ''b''] Facade init_heap) = Inr (Inst 1) \<and>
   stringify (snd (chain [Element ''a'', Element ''b''] Facade init_heap)) (Inst 1) = ''ab'' \<and>
   fst (chain [Ident ''a'', Ident ''b''] Facade init_heap) = Inl DuplicateFragmentError \<and>
   fst (chain [PseudoElement ''a'', PseudoElement ''b''] Facade init_heap) =
     Inl DuplicateFragmentError"
  by (simp add: eval_simps)

text \<open>
  C3. On a state whose last part is a category \<open>q\<close> of the order list, appending a part
  \<open>p\<close> of strictly lower rank throws the order error and leaves the store as it was, and
  appending a part of equal or higher rank passes \<^verbatim>\<open>checkOrder\<close>, so that the call
  does not throw the order error. On a state whose last part is the empty string, as on
  the facade, every part passes \<^verbatim>\<open>checkOrder\<close>.
\<close>

theorem order_check:
  "(get_lastPart h this = part_name q \<longrightarrow>
      (category_rank p < category_rank q \<longrightarrow>
         checkOrder h this (part_name p) = Inl OrderError \<and>
         append_part p this h = (Inl OrderError, h)) \<and>
      (category_rank q \<le> category_rank p \<longrightarrow>
         checkOrder h this (part_name p) = Inr () \<and>
         fst (append_part p this h) \<noteq> Inl OrderError)) \<and>
   (get_lastPart h this = [] \<longrightarrow>
      checkOrder h this (part_name p) = Inr () \<and>
      fst (append_part p this h) \<noteq> Inl OrderError)"
proof -
  have unset: "checkOrder h this (part_name p) = Inr ()" if "get_lastPart h this = []"
    using that by (simp add: checkOrder_unset order_def)
  have low: "append_part p this h = (Inl OrderError, h)"
    if "checkOrder h this (part_name p) = Inl OrderError"
    using that by (simp add: append_part_eq)
  show ?thesis
    using unset low append_part_not_order [of h this p]
    by (auto simp: checkOrder_set)
qed

theorem order_check_witness:
  "get_lastPart (snd (chain [Class ''container''] Facade init_heap)) (Inst 0) =
     part_name (Class ''x'') \<and>
   category_rank (Ident ''main'') < category_rank (Class ''x'') \<and>
   category_rank (Class ''x'') \<le> category_rank (Attr ''href'') \<and>
   get_lastPart init_heap Facade = [] \<and>
   chain [Class ''container'', Ident ''main''] Facade init_heap =
     (Inl OrderError, snd (chain [Class ''container''] Facade init_heap)) \<and>
   fst (chain [Class ''container'', Attr ''href''] Facade init_heap) \<noteq> Inl OrderError \<and>
   fst (append_part (Ident ''main'') Facade init_heap) \<noteq> Inl OrderError"
  using order_check [of "snd (chain [Class ''container''] Facade init_heap)" "Inst 0"
      "Class ''x''" "Ident ''main''"]
    order_check [of "snd (chain [Class ''container''] Facade init_heap)" "Inst 0"
      "Class ''x''" "Attr ''href''"]
    order_check [of init_heap Facade "Class ''x''" "Ident ''main''"]
  by (simp add: eval_simps split: sum.splits)

text \<open>
  C4. For all operands \<open>a\<close> and \<open>b\<close> and every combinator string \<open>c\<close>, the object returned
  by \<^verbatim>\<open>combine\<close> stringifies to the text of \<open>a\<close>, one space, \<open>c\<close> as given, one space, the
  text of \<open>b\<close>.
\<close>

theorem combine_stringify:
  "stringify (snd (combine a c b h)) (fst (combine a c b h)) =
     stringify h a @ '' '' @ c @ '' '' @ stringify h b"
  using get_selector_alloc_new [of _ _ "h\<lparr>insts := insts h @ [no_props]\<rparr>"]
  by (simp add: combine_eq stringify_def)

text \<open>
  C5. Every object \<open>s\<close> of the store keeps its text and its last part through any program,
  including calls that have \<open>s\<close> as receiver or as operand of \<^verbatim>\<open>combine\<close>; and the object
  an append or \<^verbatim>\<open>combine\<close> returns is a new one, not an object of the store it received.
\<close>

theorem states_immutable:
  "valid h s \<Longrightarrow>
   (stringify (execs cs h) s = stringify h s \<and> get_lastPart (execs cs h) s = get_lastPart h s) \<and>
   (fst (append_part p this h) = Inr r \<longrightarrow>
      \<not> valid h r \<and> valid (snd (append_part p this h)) r) \<and>
   \<not> valid h (fst (combine a c b h)) \<and> valid (snd (combine a c b h)) (fst (combine a c b h))"
  using execs_frame [of h s cs] append_part_fresh [of p this h r] combine_fresh [of h a c b]
  by (simp add: stringify_def)

theorem states_immutable_witness:
  "valid (snd (chain [Ident ''main''] Facade init_heap)) (Inst 0) \<and>
   stringify (execs [Append (Class ''c'') (Inst 0), Combine (Inst 0) ''+'' (Inst 0)]
      (snd (chain [Ident ''main''] Facade init_heap))) (Inst 0) = ''#main'' \<and>
   get_lastPart (execs [Append (Class ''c'') (Inst 0), Combine (Inst 0) ''+'' (Inst 0)]
      (snd (chain [Ident ''main''] Facade init_heap))) (Inst 0) = ''id'' \<and>
   fst (append_part (Class ''c'') (Inst 0) (snd (chain [Ident ''main''] Facade init_heap))) =
     Inr (Inst 1) \<and>
   \<not> valid (snd (chain [Ident ''main''] Facade init_heap)) (Inst 1)"
  using states_immutable [of "snd (chain [Ident ''main''] Facade init_heap)" "Inst 0"
      "[Append (Class ''c'') (Inst 0), Combine (Inst 0) ''+'' (Inst 0)]"
      "Class ''c''" "Inst 0" "Inst 1" "Inst 0" "''+''" "Inst 0"]
  by (simp add: eval_simps)

text \<open>
  C6. The object returned by \<^verbatim>\<open>combine\<close> has the empty string as its last part, so
  every category passes \<^verbatim>\<open>checkOrder\<close> on it and no append on it throws the order error.
\<close>

theorem combine_resets_order:
  "get_lastPart (snd (combine a c b h)) (fst (combine a c b h)) = [] \<and>
   checkOrder (snd (combine a c b h)) (fst (combine a c b h)) (part_name p) = Inr () \<and>
   fst (append_part p (fst (combine a c b h)) (snd (combine a c b h))) \<noteq> Inl OrderError"
proof -
  let ?h1 = "h\<lparr>insts := insts h @ [no_props]\<rparr>"
  have lp: "get_lastPart (snd (combine a c b h)) (fst (combine a c b h)) = []"
    using get_lastPart_alloc_new [of _ _ ?h1] by (simp add: combine_eq)
  then have ok: "checkOrder (snd (combine a c b h)) (fst (combine a c b h)) (part_name p) = Inr ()"
    by (simp add: checkOrder_unset order_def)
  from lp ok append_part_not_order [OF ok] show ?thesis by simp
qed

text \<open>
  C7. \<^verbatim>\<open>stringify\<close> on the facade before any call, the empty initial state, returns the
  empty string.
\<close>

theorem stringify_initial_empty: "stringify init_heap Facade = []"
  by (simp add: stringify_def get_selector_def init_heap_def)

text \<open>
  The statement of C8 for every state fails on the code: after \<^verbatim>\<open>class('table')\<close> the text
  contains \<open>table\<close>, and \<^verbatim>\<open>element('div')\<close> throws the order error, not the duplicate one.
\<close>

theorem table_div_counterexample:
  "fst (chain [Class ''table''] Facade init_heap) = Inr (Inst 0) \<and>
   str_includes (stringify (snd (chain [Class ''table''] Facade init_heap)) (Inst 0)) ''table'' \<and>
   fst (element ''div'' (Inst 0) (snd (chain [Class ''table''] Facade init_heap))) =
     Inl OrderError"
  by (simp add: eval_simps element_def)

text \<open>
  C8, as the code has it. \<^verbatim>\<open>element\<close> calls \<^verbatim>\<open>checkOrder\<close> before \<^verbatim>\<open>validate\<close>: when
  the receiver's text contains \<open>table\<close> and \<^verbatim>\<open>checkOrder\<close> permits an element,
  \<^verbatim>\<open>element('div')\<close> throws the duplicate error.
\<close>

theorem table_div_duplicate:
  "str_includes (stringify h this) ''table'' \<Longrightarrow> checkOrder h this ''element'' = Inr () \<Longrightarrow>
   element ''div'' this h = (Inl DuplicateFragmentError, h)"
  by (simp add: element_def validate_eq stringify_def)

theorem table_div_duplicate_witness:
  "fst (chain [Element ''table''] Facade init_heap) = Inr (Inst 0) \<and>
   str_includes (stringify (snd (chain [Element ''table''] Facade init_heap)) (Inst 0)) ''table'' \<and>
   checkOrder (snd (chain [Element ''table''] Facade init_heap)) (Inst 0) ''element'' = Inr () \<and>
   element ''div'' (Inst 0) (snd (chain [Element ''table''] Facade init_heap)) =
     (Inl DuplicateFragmentError, snd (chain [Element ''table''] Facade init_heap)) \<and>
   str_includes (stringify (snd (combine Facade ''table'' Facade init_heap)) (Inst 1)) ''table'' \<and>
   checkOrder (snd (combine Facade ''table'' Facade init_heap)) (Inst 1) ''element'' = Inr () \<and>
   element ''div'' (Inst 1) (snd (combine Facade ''table'' Facade init_heap)) =
     (Inl DuplicateFragmentError, snd (combine Facade ''table'' Facade init_heap))"
  using table_div_duplicate [of "snd (chain [Element ''table''] Facade init_heap)" "Inst 0"]
    table_div_duplicate [of "snd (combine Facade ''table'' Facade init_heap)" "Inst 1"]
  by (simp add: eval_simps)

text \<open>
  C9. When \<^verbatim>\<open>checkOrder\<close> permits the call, \<^verbatim>\<open>id\<close> throws the duplicate error exactly
  when the receiver's text contains the character \<open>#\<close>, and \<^verbatim>\<open>pseudoElement\<close> exactly
  when the text contains \<open>::\<close>; otherwise the call returns an object. The condition
  mentions the text only, neither the last part nor the argument.
\<close>

theorem id_pseudoElement_duplicate_iff:
  "(checkOrder h this ''id'' = Inr () \<longrightarrow>
      (fst (id_sel name this h) = Inl DuplicateFragmentError) =
        (CHR ''#'' \<in> set (stringify h this)) \<and>
      (CHR ''#'' \<notin> set (stringify h this) \<longrightarrow> (\<exists>r. fst (id_sel name this h) = Inr r))) \<and>
   (checkOrder h this ''pseudoElement'' = Inr () \<longrightarrow>
      (fst (pseudoElement name this h) = Inl DuplicateFragmentError) =
        (\<exists>a b. stringify h this = a @ ''::'' @ b) \<and>
      ((\<nexists>a b. stringify h this = a @ ''::'' @ b) \<longrightarrow>
         (\<exists>r. fst (pseudoElement name this h) = Inr r)))"
proof -
  have hash: "str_includes s ''#'' \<longleftrightarrow> CHR ''#'' \<in> set s" for s
    by (rule includes_char)
  have colons: "(\<exists>a b. s = a @ ''::'' @ b) \<longleftrightarrow> str_includes s ''::''" for s
    by (simp only: str_includes_iff)
  show ?thesis
    unfolding colons stringify_def
    by (simp add: id_sel_def pseudoElement_def validate_eq create_eq hash)
qed

theorem id_pseudoElement_duplicate_iff_witness:
  "checkOrder (snd (chain [Element ''a#b''] Facade init_heap)) (Inst 0) ''id'' = Inr () \<and>
   CHR ''#'' \<in> set (stringify (snd (chain [Element ''a#b''] Facade init_heap)) (Inst 0)) \<and>
   fst (id_sel ''c'' (Inst 0) (snd (chain [Element ''a#b''] Facade init_heap))) =
     Inl DuplicateFragmentError \<and>
   checkOrder init_heap Facade ''id'' = Inr () \<and>
   CHR ''#'' \<notin> set (stringify init_heap Facade) \<and>
   (\<exists>r. fst (id_sel ''main'' Facade init_heap) = Inr r) \<and>
   checkOrder (snd (chain [Attr ''title=a::b''] Facade init_heap)) (Inst 0) ''pseudoElement'' =
     Inr () \<and>
   str_includes (stringify (snd (chain [Attr ''title=a::b''] Facade init_heap)) (Inst 0)) ''::'' \<and>
   fst (pseudoElement ''before'' (Inst 0) (snd (chain [Attr ''title=a::b''] Facade init_heap))) =
     Inl DuplicateFragmentError \<and>
   checkOrder init_heap Facade ''pseudoElement'' = Inr () \<and>
   \<not> str_includes (stringify init_heap Facade) ''::'' \<and>
   (\<exists>r. fst (pseudoElement ''before'' Facade init_heap) = Inr r)"
proof -
  let ?h1 = "snd (chain [Element ''a#b''] Facade init_heap)"
  let ?h2 = "snd (chain [Attr ''title=a::b''] Facade init_heap)"
  have o1: "checkOrder ?h1 (Inst 0) ''id'' = Inr ()"
    and o2: "checkOrder init_heap Facade ''id'' = Inr ()"
    and o3: "checkOrder ?h2 (Inst 0) ''pseudoElement'' = Inr ()"
    and o4: "checkOrder init_heap Facade ''pseudoElement'' = Inr ()"
    by (simp_all add: eval_simps)
  have t1: "CHR ''#'' \<in> set (stringify ?h1 (Inst 0))"
    and t2: "CHR ''#'' \<notin> set (stringify init_heap Facade)"
    and t3: "str_includes (stringify ?h2 (Inst 0)) ''::''"
    and t4: "\<not> str_includes (stringify init_heap Facade) ''::''"
    by (simp_all add: eval_simps)
  from t3 have t3': "\<exists>a b. stringify ?h2 (Inst 0) = a @ ''::'' @ b"
    by (simp only: str_includes_iff)
  from t4 have t4': "\<nexists>a b. stringify init_heap Facade = a @ ''::'' @ b"
    by (simp only: str_includes_iff) simp
  from id_pseudoElement_duplicate_iff [of ?h1 "Inst 0" "''c''"] o1 t1
  have a: "fst (id_sel ''c'' (Inst 0) ?h1) = Inl DuplicateFragmentError" by blast
  from id_pseudoElement_duplicate_iff [of init_heap Facade "''main''"] o2 t2
  have b: "\<exists>r. fst (id_sel ''main'' Facade init_heap) = Inr r" by blast
  from id_pseudoElement_duplicate_iff [of ?h2 "Inst 0" "''before''"] o3 t3'
  have c: "fst (pseudoElement ''before'' (Inst 0) ?h2) = Inl DuplicateFragmentError" by blast
  from id_pseudoElement_duplicate_iff [of init_heap Facade "''before''"] o4 t4'
  have d: "\<exists>r. fst (pseudoElement ''before'' Facade init_heap) = Inr r" by blast
  from o1 o2 o3 o4 t1 t2 t3 t4 a b c d show ?thesis by blast
qed

text \<open>
  C10. No call of the public surface assigns to the facade: after any program run from
  the initial store, the facade's own \<^verbatim>\<open>selector\<close> and \<^verbatim>\<open>lastPart\<close> are still the empty
  string, whatever receivers and operands the calls had, and so a chain started on the
  facade reads the empty text and no last part.
\<close>

theorem facade_never_modified:
  "facade_selector (execs cs init_heap) = [] \<and> facade_lastPart (execs cs init_heap) = [] \<and>
   stringify (execs cs init_heap) Facade = [] \<and> get_lastPart (execs cs init_heap) Facade = []"
  by (simp add: execs_facade stringify_def get_selector_def get_lastPart_def init_heap_def)

end
